theory Spec2Isabelle
  imports Main
begin

section \<open>Failures\<close>

text \<open>
  The exceptions the Little Man Computer sources can raise.  Every function that can
  raise returns a sum: \<open>Inl\<close> the exception, \<open>Inr\<close> the value.
\<close>

datatype error = IndexError | KeyError | ValueError | TypeError | AssertionError

section \<open>Python lists\<close>

text \<open>
  \<open>xs[i]\<close> and \<open>xs[i] = v\<close> on a Python list: a negative index counts from the end,
  an index outside \<open>-len(xs) .. len(xs) - 1\<close> raises \<open>IndexError\<close>.
\<close>

definition list_get :: "'a list \<Rightarrow> int \<Rightarrow> error + 'a" where
  "list_get xs i =
     (let n = int (length xs); j = (if i < 0 then i + n else i)
      in if 0 \<le> j \<and> j < n then Inr (xs ! nat j) else Inl IndexError)"

definition list_set :: "'a list \<Rightarrow> int \<Rightarrow> 'a \<Rightarrow> error + 'a list" where
  "list_set xs i v =
     (let n = int (length xs); j = (if i < 0 then i + n else i)
      in if 0 \<le> j \<and> j < n then Inr (xs[nat j := v]) else Inl IndexError)"

section \<open>The simulator (class Simulator of lmc.py)\<close>

record simulator =
  pc :: int
  acc :: int
  mailboxes :: "int list"
  halted :: bool
  awaiting_input :: bool

text \<open>\<open>reset\<close> overwrites every attribute, so its result does not depend on the old state.\<close>

definition reset :: "simulator \<Rightarrow> simulator" where
  "reset s = s\<lparr>pc := 0, acc := 0, mailboxes := replicate 100 0,
               halted := False, awaiting_input := False\<rparr>"

text \<open>The state of a simulator that has just been constructed (\<open>__init__\<close> calls \<open>reset\<close>).\<close>

definition initial :: simulator where
  "initial = \<lparr>pc = 0, acc = 0, mailboxes = replicate 100 0,
              halted = False, awaiting_input = False\<rparr>"

text \<open>
  The loop of \<open>load_program\<close>: for each index of the range, in order, read
  \<open>program[i]\<close> and store it into \<open>mailboxes[i]\<close>.
\<close>

fun load_loop :: "nat list \<Rightarrow> int list \<Rightarrow> int list \<Rightarrow> error + int list" where
  "load_loop [] program mb = Inr mb"
| "load_loop (i # rest) program mb =
     (case list_get program (int i) of
        Inl e \<Rightarrow> Inl e
      | Inr v \<Rightarrow>
          (case list_set mb (int i) v of
             Inl e \<Rightarrow> Inl e
           | Inr mb' \<Rightarrow> load_loop rest program mb'))"

definition load_program :: "simulator \<Rightarrow> int list \<Rightarrow> error + simulator" where
  "load_program s program =
     (case load_loop [0 ..< min (length (mailboxes s)) (length program)] program (mailboxes s) of
        Inl e \<Rightarrow> Inl e
      | Inr mb \<Rightarrow> Inr (s\<lparr>mailboxes := mb, halted := False\<rparr>))"

text \<open>\<open>assert value <= 999\<close>, then \<open>acc = int(value)\<close>, which is \<open>value\<close> for an integer.\<close>

definition load_input :: "simulator \<Rightarrow> int \<Rightarrow> error + simulator" where
  "load_input s v =
     (if v \<le> 999 then Inr (s\<lparr>acc := v, awaiting_input := False\<rparr>)
      else Inl AssertionError)"

definition fetch :: "simulator \<Rightarrow> error + int" where
  "fetch s = list_get (mailboxes s) (pc s)"

text \<open>
  \<open>divmod(instruction, 100)\<close> rounds towards minus infinity, as \<open>div\<close> and \<open>mod\<close> on
  \<open>int\<close> do.
\<close>

definition decode :: "int \<Rightarrow> int \<times> int" where
  "decode instruction =
     (let opcode = instruction div 100; operand = instruction mod 100
      in if opcode = 9 then (opcode * 100 + operand, 0) else (opcode, operand))"

text \<open>
  \<open>_execute\<close> increments \<open>pc\<close> first and then dispatches on the opcode.  The result is
  the value returned (\<open>None\<close> for no output) with the new state.
\<close>

definition execute :: "simulator \<Rightarrow> int \<Rightarrow> int \<Rightarrow> error + (int option \<times> simulator)" where
  "execute s opcode operand =
     (let s1 = s\<lparr>pc := pc s + 1\<rparr> in
      if opcode = 0 then Inr (None, s1\<lparr>halted := True\<rparr>)
      else if opcode = 1 then
        (case list_get (mailboxes s1) operand of
           Inl e \<Rightarrow> Inl e
         | Inr v \<Rightarrow> Inr (None, s1\<lparr>acc := acc s1 + v\<rparr>))
      else if opcode = 2 then
        (case list_get (mailboxes s1) operand of
           Inl e \<Rightarrow> Inl e
         | Inr v \<Rightarrow> Inr (None, s1\<lparr>acc := acc s1 - v\<rparr>))
      else if opcode = 3 then
        (case list_set (mailboxes s1) operand (acc s1) of
           Inl e \<Rightarrow> Inl e
         | Inr mb \<Rightarrow> Inr (None, s1\<lparr>mailboxes := mb\<rparr>))
      else if opcode = 5 then
        (case list_get (mailboxes s1) operand of
           Inl e \<Rightarrow> Inl e
         | Inr v \<Rightarrow> Inr (None, s1\<lparr>acc := v\<rparr>))
      else if opcode = 6 then Inr (None, s1\<lparr>pc := operand\<rparr>)
      else if opcode = 7 then
        (if acc s1 = 0 then Inr (None, s1\<lparr>pc := operand\<rparr>) else Inr (None, s1))
      else if opcode = 8 then
        (if acc s1 \<ge> 0 then Inr (None, s1\<lparr>pc := operand\<rparr>) else Inr (None, s1))
      else if opcode = 901 then Inr (None, s1\<lparr>awaiting_input := True, acc := 0\<rparr>)
      else if opcode = 902 then Inr (Some (acc s1), s1)
      else Inr (None, s1))"

definition step :: "simulator \<Rightarrow> error + (int option \<times> simulator)" where
  "step s =
     (if \<not> halted s then
        (case fetch s of
           Inl e \<Rightarrow> Inl e
         | Inr instruction \<Rightarrow>
             (case decode instruction of (opcode, operand) \<Rightarrow> execute s opcode operand))
      else Inr (None, s))"

section \<open>Python strings\<close>

text \<open>
  A source text is a list of characters, each a code point below 256.  \<open>isspace\<close> is
  Python's notion of white space on that range (the characters \<open>str.strip\<close> and
  \<open>str.split\<close> without argument remove): code points 9 to 13, 28 to 32, 133 and 160.
  \<open>upper\<close> is \<open>str.upper\<close> on ASCII, where it changes the letters a to z only.
  From code point 128 on the model leaves a character alone; \<open>str.upper\<close> may
  change it, but the result is then never a key of the instruction table, so every test
  against the table comes out the same.
\<close>

definition isspace :: "char \<Rightarrow> bool" where
  "isspace c =
     (let n = (of_char c :: nat)
      in (9 \<le> n \<and> n \<le> 13) \<or> (28 \<le> n \<and> n \<le> 32) \<or> n = 133 \<or> n = 160)"

definition isdigit :: "char \<Rightarrow> bool" where
  "isdigit c = (let n = (of_char c :: nat) in 48 \<le> n \<and> n \<le> 57)"

text \<open>
  \<open>str.isnumeric\<close>: the string is not empty and every character has a numeric value.
  Below 256 these are the digits, the superscripts 1, 2, 3 and the fractions 1/4, 1/2, 3/4.
\<close>

definition isnumeric_char :: "char \<Rightarrow> bool" where
  "isnumeric_char c =
     (let n = (of_char c :: nat)
      in (48 \<le> n \<and> n \<le> 57) \<or> n = 178 \<or> n = 179 \<or> n = 185 \<or> n = 188 \<or> n = 189 \<or> n = 190)"

definition isnumeric :: "string \<Rightarrow> bool" where
  "isnumeric s = (s \<noteq> [] \<and> list_all isnumeric_char s)"

definition upper_char :: "char \<Rightarrow> char" where
  "upper_char c =
     (let n = (of_char c :: nat) in if 97 \<le> n \<and> n \<le> 122 then char_of (n - 32) else c)"

definition upper :: "string \<Rightarrow> string" where
  "upper s = map upper_char s"

definition strip :: "string \<Rightarrow> string" where
  "strip s = rev (dropWhile isspace (rev (dropWhile isspace s)))"

text \<open>\<open>line.replace("\t", " ")\<close>.\<close>

definition replace_tabs :: "string \<Rightarrow> string" where
  "replace_tabs s = map (\<lambda>c. if c = CHR 0x09 then CHR 0x20 else c) s"

text \<open>
  \<open>s.split()\<close>: the maximal runs of characters that are not white space.  The scan
  keeps the run it is reading in \<open>cur\<close>.
\<close>

fun split_scan :: "string \<Rightarrow> string \<Rightarrow> string list" where
  "split_scan cur [] = (if cur = [] then [] else [cur])"
| "split_scan cur (c # cs) =
     (if isspace c then (if cur = [] then split_scan [] cs else cur # split_scan [] cs)
      else split_scan (cur @ [c]) cs)"

definition split_ws :: "string \<Rightarrow> string list" where
  "split_ws s = split_scan [] s"

text \<open>\<open>program.split("\n")\<close>: the pieces between line feeds; never an empty list.\<close>

fun split_lines_scan :: "string \<Rightarrow> string \<Rightarrow> string list" where
  "split_lines_scan cur [] = [cur]"
| "split_lines_scan cur (c # cs) =
     (if c = CHR 0x0A then cur # split_lines_scan [] cs else split_lines_scan (cur @ [c]) cs)"

definition split_lines :: "string \<Rightarrow> string list" where
  "split_lines s = split_lines_scan [] s"

fun startswith :: "string \<Rightarrow> string \<Rightarrow> bool" where
  "startswith s [] = True"
| "startswith [] (d # ds) = False"
| "startswith (c # cs) (d # ds) = (c = d \<and> startswith cs ds)"

text \<open>
  \<open>line.split(sep)[0]\<close>: the text before the first occurrence of \<open>sep\<close>, the whole
  line when there is none; an empty separator raises \<open>ValueError\<close>.
\<close>

fun before_first :: "string \<Rightarrow> string \<Rightarrow> string" where
  "before_first [] sep = []"
| "before_first (c # cs) sep = (if startswith (c # cs) sep then [] else c # before_first cs sep)"

definition split_head :: "string \<Rightarrow> string \<Rightarrow> error + string" where
  "split_head s sep = (if sep = [] then Inl ValueError else Inr (before_first s sep))"

text \<open>\<open>str(n)\<close> for a natural number: its decimal digits.\<close>

fun str_nat :: "nat \<Rightarrow> string" where
  "str_nat n =
     (if n < 10 then [char_of (48 + n)] else str_nat (n div 10) @ [char_of (48 + n mod 10)])"

declare str_nat.simps [simp del]

text \<open>
  \<open>int(s)\<close> for a string, base 10: white space around is ignored, one sign is allowed,
  then digits, where single underscores may stand between digits.  Anything else raises
  \<open>ValueError\<close>.  (The interpreter's optional limit on the number of digits of a literal
  is not modelled.)
\<close>

fun digits_ok :: "string \<Rightarrow> bool" where
  "digits_ok [] = False"
| "digits_ok [c] = isdigit c"
| "digits_ok (c # d # r) =
     (isdigit c \<and> (if d = CHR ''_'' then digits_ok r else digits_ok (d # r)))"

definition digits_value :: "string \<Rightarrow> nat" where
  "digits_value s =
     foldl (\<lambda>a c. if c = CHR ''_'' then a else 10 * a + ((of_char c :: nat) - 48)) 0 s"

definition py_int :: "string \<Rightarrow> error + int" where
  "py_int s =
     (let t = strip s;
          negative = (t \<noteq> [] \<and> hd t = CHR ''-'');
          body = (if t \<noteq> [] \<and> (hd t = CHR ''-'' \<or> hd t = CHR ''+'') then tl t else t)
      in if digits_ok body
         then Inr (if negative then - int (digits_value body) else int (digits_value body))
         else Inl ValueError)"

section \<open>The assembler (class Assembler of lmc.py)\<close>

record assembler =
  comment_delimeter :: string

text \<open>\<open>Assembler()\<close>: the comment delimiter defaults to \<open>#\<close>.\<close>

definition default_assembler :: assembler where
  "default_assembler = \<lparr>comment_delimeter = ''#''\<rparr>"

text \<open>
  The table \<open>instructions\<close>, the same for every assembler: a mnemonic is a key with an
  opcode, or, for \<open>DAT\<close>, a key with the value \<open>None\<close>.
\<close>

definition instructions :: "string \<Rightarrow> int option option" where
  "instructions =
     map_of [(''ADD'', Some 100), (''SUB'', Some 200), (''STA'', Some 300),
             (''LDA'', Some 500), (''BRA'', Some 600), (''BRZ'', Some 700),
             (''BRP'', Some 800), (''INP'', Some 901), (''OUT'', Some 902),
             (''HLT'', Some 0), (''DAT'', None)]"

text \<open>\<open>k in self.instructions.keys()\<close>.\<close>

definition is_mnemonic :: "string \<Rightarrow> bool" where
  "is_mnemonic k = (instructions k \<noteq> None)"

text \<open>
  \<open>_normalise\<close>.  Each line of the text is handled in turn; a line that is skipped adds
  nothing, any other adds its cleaned form after those of the lines before it.
\<close>

fun normalise_lines :: "string \<Rightarrow> string list \<Rightarrow> error + string list" where
  "normalise_lines delim [] = Inr []"
| "normalise_lines delim (l # rest) =
     (let line = strip (replace_tabs l) in
      if line = [] \<or> startswith line delim then normalise_lines delim rest
      else
        (case split_head line delim of
           Inl e \<Rightarrow> Inl e
         | Inr h \<Rightarrow>
             (case normalise_lines delim rest of
                Inl e \<Rightarrow> Inl e
              | Inr ls \<Rightarrow> Inr (strip h # ls))))"

definition normalise :: "assembler \<Rightarrow> string \<Rightarrow> error + string list" where
  "normalise a program = normalise_lines (comment_delimeter a) (split_lines program)"

text \<open>
  \<open>_tokenise\<close>.  A line gives a triple (label, mnemonic, operand), each \<open>None\<close> unless
  a branch sets it; a line without tokens is skipped (\<open>continue\<close>), the result \<open>None\<close>
  of \<open>tokenise_line\<close>.
\<close>

type_synonym token_line = "string option \<times> string option \<times> string option"

definition tokenise_line :: "string \<Rightarrow> token_line option" where
  "tokenise_line line =
     (let tokens = split_ws line in
      if length tokens = 0 then None
      else if length tokens = 1 then Some (None, Some (upper (tokens ! 0)), None)
      else if length tokens = 2 then
        (if is_mnemonic (upper (tokens ! 0))
           then Some (None, Some (upper (tokens ! 0)), Some (tokens ! 1))
         else if is_mnemonic (upper (tokens ! 1))
           then Some (Some (tokens ! 0), Some (upper (tokens ! 1)), None)
         else Some (None, None, None))
      else if length tokens = 3
        then Some (Some (tokens ! 0), Some (upper (tokens ! 1)), Some (tokens ! 2))
      else Some (None, None, None))"

fun tokenise :: "string list \<Rightarrow> token_line list" where
  "tokenise [] = []"
| "tokenise (line # rest) =
     (case tokenise_line line of
        None \<Rightarrow> tokenise rest
      | Some t \<Rightarrow> t # tokenise rest)"

text \<open>
  \<open>_unlabel_lines\<close>.  The first loop fills the dictionary \<open>labels\<close>, a later line
  overwriting the entry of an earlier one with the same label; \<open>if label\<close> holds for a
  string that is not empty.  The second loop rewrites the operands with the finished
  dictionary.
\<close>

fun build_labels :: "nat \<Rightarrow> token_line list \<Rightarrow> (string \<Rightarrow> nat option) \<Rightarrow> (string \<Rightarrow> nat option)" where
  "build_labels mailbox [] labels = labels"
| "build_labels mailbox ((label, mnemonic, operand) # rest) labels =
     build_labels (Suc mailbox) rest
       (case label of
          None \<Rightarrow> labels
        | Some l \<Rightarrow> if l = [] then labels else labels(l \<mapsto> mailbox))"

definition unlabel_operand ::
  "(string \<Rightarrow> nat option) \<Rightarrow> string option \<Rightarrow> string option \<Rightarrow> error + string option" where
  "unlabel_operand labels mnemonic operand =
     (case operand of
        None \<Rightarrow> Inr None
      | Some opd \<Rightarrow>
          if opd \<noteq> [] \<and> \<not> isnumeric opd \<and> mnemonic \<noteq> Some ''DAT'' then
            (case labels opd of
               None \<Rightarrow> Inl KeyError
             | Some mailbox \<Rightarrow> Inr (Some (str_nat mailbox)))
          else Inr (Some opd))"

fun unlabel_rewrite ::
  "(string \<Rightarrow> nat option) \<Rightarrow> token_line list \<Rightarrow> error + (string option \<times> string option) list" where
  "unlabel_rewrite labels [] = Inr []"
| "unlabel_rewrite labels ((label, mnemonic, operand) # rest) =
     (case unlabel_operand labels mnemonic operand of
        Inl e \<Rightarrow> Inl e
      | Inr operand' \<Rightarrow>
          (case unlabel_rewrite labels rest of
             Inl e \<Rightarrow> Inl e
           | Inr us \<Rightarrow> Inr ((mnemonic, operand') # us)))"

definition unlabel_lines :: "token_line list \<Rightarrow> error + (string option \<times> string option) list" where
  "unlabel_lines lines = unlabel_rewrite (build_labels 0 lines Map.empty) lines"

text \<open>
  \<open>_generate_machine_code\<close>, one line.  \<open>int(operand or 0)\<close> is 0 for a missing or
  empty operand; \<open>self.instructions[mnemonic]\<close> raises \<open>KeyError\<close> for \<open>None\<close> and for
  a string that is not a key; \<open>int(None)\<close> raises \<open>TypeError\<close>.  The table gives the
  value \<open>None\<close> for \<open>DAT\<close> only, which the first test has taken, so the branch of
  that value is never reached.
\<close>

definition generate_line :: "string option \<times> string option \<Rightarrow> error + int" where
  "generate_line l =
     (case l of (mnemonic, operand) \<Rightarrow>
        if mnemonic = Some ''DAT'' then
          (case operand of
             None \<Rightarrow> Inr 0
           | Some opd \<Rightarrow> if opd = [] then Inr 0 else py_int opd)
        else
          (case mnemonic of
             None \<Rightarrow> Inl KeyError
           | Some m \<Rightarrow>
               (case instructions m of
                  None \<Rightarrow> Inl KeyError
                | Some None \<Rightarrow> Inl TypeError
                | Some (Some opcode) \<Rightarrow>
                    if opcode \<in> set [100, 200, 300, 500, 600, 700, 800] then
                      (case operand of
                         None \<Rightarrow> Inl TypeError
                       | Some opd \<Rightarrow>
                           (case py_int opd of
                              Inl e \<Rightarrow> Inl e
                            | Inr v \<Rightarrow> Inr (opcode + v)))
                    else Inr opcode)))"

fun generate_machine_code :: "(string option \<times> string option) list \<Rightarrow> error + int list" where
  "generate_machine_code [] = Inr []"
| "generate_machine_code (l # rest) =
     (case generate_line l of
        Inl e \<Rightarrow> Inl e
      | Inr v \<Rightarrow>
          (case generate_machine_code rest of
             Inl e \<Rightarrow> Inl e
           | Inr code \<Rightarrow> Inr (v # code)))"

definition assemble :: "assembler \<Rightarrow> string \<Rightarrow> error + int list" where
  "assemble a program =
     (case normalise a program of
        Inl e \<Rightarrow> Inl e
      | Inr normalised_program \<Rightarrow>
          (case unlabel_lines (tokenise normalised_program) of
             Inl e \<Rightarrow> Inl e
           | Inr unlabelled_lines \<Rightarrow> generate_machine_code unlabelled_lines))"

text \<open>
  The lines that count in the specification: a line of the source text that, with its
  tabs replaced and the white space around it removed, is neither empty nor a comment.
\<close>

definition is_code_line :: "assembler \<Rightarrow> string \<Rightarrow> bool" where
  "is_code_line a l =
     (strip (replace_tabs l) \<noteq> [] \<and> \<not> startswith (strip (replace_tabs l)) (comment_delimeter a))"

definition count_code_lines :: "assembler \<Rightarrow> string \<Rightarrow> nat" where
  "count_code_lines a program = length (filter (is_code_line a) (split_lines program))"

text \<open>
  A program whose operands are all numeric literals: in every line of the tokenised
  program the operand is missing or a numeric string.
\<close>

definition numeric_operands :: "assembler \<Rightarrow> string \<Rightarrow> bool" where
  "numeric_operands a program =
     (case normalise a program of
        Inl e \<Rightarrow> False
      | Inr ls \<Rightarrow>
          list_all (\<lambda>t. case t of (label, mnemonic, operand) \<Rightarrow>
                      (case operand of None \<Rightarrow> True | Some opd \<Rightarrow> isnumeric opd))
            (tokenise ls))"

text \<open>
  The label a tokenised line refers to: its operand, when \<open>_unlabel_lines\<close> looks
  it up in the dictionary (an operand that is not empty, not numeric, on a mnemonic
  other than \<open>DAT\<close>).  In \<open>labels_defined\<close> every such operand is the label of some
  line of the program.
\<close>

definition label_reference :: "token_line \<Rightarrow> string option" where
  "label_reference t =
     (case t of (label, mnemonic, operand) \<Rightarrow>
        (case operand of
           None \<Rightarrow> None
         | Some opd \<Rightarrow>
             if opd \<noteq> [] \<and> \<not> isnumeric opd \<and> mnemonic \<noteq> Some ''DAT'' then Some opd
             else None))"

definition labels_defined :: "token_line list \<Rightarrow> bool" where
  "labels_defined lines =
     list_all (\<lambda>t. case label_reference t of
                      None \<Rightarrow> True
                    | Some opd \<Rightarrow> list_ex (\<lambda>t'. fst t' = Some opd) lines) lines"

section \<open>Properties of the simulator\<close>

lemma length_reset: "length (mailboxes (reset s)) = 100"
  by (simp add: reset_def)

lemma list_get_in_range:
  "0 \<le> i \<Longrightarrow> i < int (length xs) \<Longrightarrow> list_get xs i = Inr (xs ! nat i)"
  by (simp add: list_get_def)

lemma list_set_in_range:
  "0 \<le> i \<Longrightarrow> i < int (length xs) \<Longrightarrow> list_set xs i v = Inr (xs[nat i := v])"
  by (simp add: list_set_def)

lemma load_loop_fold:
  "\<forall>i \<in> set idxs. i < length program \<and> i < length mb \<Longrightarrow>
   load_loop idxs program mb = Inr (fold (\<lambda>i m. m[i := program ! i]) idxs mb)"
proof (induction idxs arbitrary: mb)
  case Nil
  show ?case by simp
next
  case (Cons i rest)
  from Cons.prems have i: "i < length program" "i < length mb"
    by simp_all
  from Cons.prems have rest: "\<forall>k \<in> set rest. k < length program \<and> k < length (mb[i := program ! i])"
    by simp
  show ?case
    using i Cons.IH [OF rest] by (simp add: list_get_in_range list_set_in_range)
qed

lemma length_fold_update:
  "length (fold (\<lambda>i m. m[i := f i]) idxs mb) = length mb"
  by (induction idxs arbitrary: mb) simp_all

lemma nth_fold_update:
  "j < length mb \<Longrightarrow>
   fold (\<lambda>i m. m[i := f i]) idxs mb ! j = (if j \<in> set idxs then f j else mb ! j)"
proof (induction idxs arbitrary: mb)
  case Nil
  show ?case by simp
next
  case (Cons i rest)
  from Cons.prems have "j < length (mb[i := f i])"
    by simp
  from Cons.IH [OF this] show ?case
    using Cons.prems by (auto simp: nth_list_update)
qed

lemma load_program_result:
  "load_program s program =
     Inr (s\<lparr>mailboxes :=
               fold (\<lambda>i m. m[i := program ! i])
                 [0 ..< min (length (mailboxes s)) (length program)] (mailboxes s),
            halted := False\<rparr>)"
proof -
  have "\<forall>i \<in> set [0 ..< min (length (mailboxes s)) (length program)].
          i < length program \<and> i < length (mailboxes s)"
    by simp
  from load_loop_fold [OF this] show ?thesis
    by (simp add: load_program_def)
qed

lemma length_load_program:
  "load_program s program = Inr s' \<Longrightarrow> length (mailboxes s') = length (mailboxes s)"
  by (auto simp: load_program_result length_fold_update)

lemma decode_operand_range: "0 \<le> snd (decode instruction) \<and> snd (decode instruction) \<le> 99"
proof -
  have "0 \<le> instruction mod 100" "instruction mod 100 \<le> 99"
    by simp_all
  then show ?thesis
    by (simp add: decode_def Let_def)
qed

lemma execute_in_range:
  assumes "0 \<le> operand" "operand \<le> 99" "length (mailboxes s) = 100"
  shows "\<exists>out s'. execute s opcode operand = Inr (out, s') \<and> length (mailboxes s') = 100"
  using assms by (simp add: execute_def Let_def list_get_def list_set_def)

text \<open>
  C1.  In a state whose accumulator is 0, BRZ (opcode 7) and BRP (opcode 8) with an
  operand \<open>n\<close> in 0..99 both set \<open>pc\<close> to \<open>n\<close>, overriding the increment of \<open>pc\<close>
  that precedes the dispatch: the two instructions agree when the accumulator is 0.
  The machine words \<open>700 + n\<close> and \<open>800 + n\<close> decode to these opcodes and operand, and a
  step that fetches either word does the same.
\<close>

theorem brz_brp_agree_at_zero:
  assumes "acc s = 0" and "0 \<le> n" and "n \<le> 99"
  shows "execute s 7 n = Inr (None, s\<lparr>pc := n\<rparr>)
       \<and> execute s 8 n = Inr (None, s\<lparr>pc := n\<rparr>)
       \<and> decode (700 + n) = (7, n) \<and> decode (800 + n) = (8, n)
       \<and> (\<not> halted s \<and> (fetch s = Inr (700 + n) \<or> fetch s = Inr (800 + n))
            \<longrightarrow> step s = Inr (None, s\<lparr>pc := n\<rparr>))"
proof -
  have e7: "execute s 7 n = Inr (None, s\<lparr>pc := n\<rparr>)"
    using assms(1) by (simp add: execute_def)
  have e8: "execute s 8 n = Inr (None, s\<lparr>pc := n\<rparr>)"
    using assms(1) by (simp add: execute_def)
  have "(700 + n) div 100 = 7"
    using assms(2,3) by (intro int_div_pos_eq [where r = n]) simp_all
  moreover have "(700 + n) mod 100 = n"
    using assms(2,3) by (intro int_mod_pos_eq [where q = 7]) simp_all
  ultimately have d7: "decode (700 + n) = (7, n)"
    by (simp add: decode_def Let_def)
  have "(800 + n) div 100 = 8"
    using assms(2,3) by (intro int_div_pos_eq [where r = n]) simp_all
  moreover have "(800 + n) mod 100 = n"
    using assms(2,3) by (intro int_mod_pos_eq [where q = 8]) simp_all
  ultimately have d8: "decode (800 + n) = (8, n)"
    by (simp add: decode_def Let_def)
  have "step s = Inr (None, s\<lparr>pc := n\<rparr>)"
    if "\<not> halted s" and "fetch s = Inr (700 + n) \<or> fetch s = Inr (800 + n)"
    using that e7 e8 d7 d8 by (auto simp: step_def)
  with e7 e8 d7 d8 show ?thesis
    by blast
qed

theorem brz_brp_agree_at_zero_witness:
  "acc initial = 0 \<and> (0::int) \<le> 42 \<and> (42::int) \<le> 99
   \<and> execute initial 7 42 = Inr (None, initial\<lparr>pc := 42\<rparr>)
   \<and> execute initial 8 42 = Inr (None, initial\<lparr>pc := 42\<rparr>)
   \<and> pc (initial\<lparr>pc := 42\<rparr>) = 42"
  using brz_brp_agree_at_zero [of initial 42] by (simp add: initial_def)

text \<open>
  C4.  In a halted state \<open>step\<close> does nothing: it returns no output and the state it
  leaves is the state it was given (\<open>pc\<close>, \<open>acc\<close>, every mailbox, \<open>halted\<close> and
  \<open>awaiting_input\<close> included).
\<close>

theorem step_halted_noop:
  assumes "halted s"
  shows "step s = Inr (None, s)"
  using assms by (simp add: step_def)

theorem step_halted_noop_witness:
  "halted (initial\<lparr>pc := 3, acc := 12, halted := True\<rparr>)
   \<and> step (initial\<lparr>pc := 3, acc := 12, halted := True\<rparr>)
       = Inr (None, initial\<lparr>pc := 3, acc := 12, halted := True\<rparr>)"
  using step_halted_noop [of "initial\<lparr>pc := 3, acc := 12, halted := True\<rparr>"] by simp

text \<open>
  C5.  On a machine with its 100 mailboxes, \<open>load_program\<close> never fails, whatever the
  length of the program.  It copies the first \<open>min 100 (length code)\<close> values into the
  mailboxes of the same indices, leaves every mailbox at an index from \<open>length code\<close>
  on as it was, sets \<open>halted\<close> to false and leaves \<open>pc\<close>, \<open>acc\<close> and
  \<open>awaiting_input\<close> alone.
\<close>

theorem load_program_frame:
  assumes "length (mailboxes s) = 100"
  shows "\<exists>s'. load_program s code = Inr s'
          \<and> length (mailboxes s') = 100
          \<and> (\<forall>i. i < min 100 (length code) \<longrightarrow> mailboxes s' ! i = code ! i)
          \<and> (\<forall>i. length code \<le> i \<and> i < 100 \<longrightarrow> mailboxes s' ! i = mailboxes s ! i)
          \<and> mailboxes s' = take 100 code @ drop (length code) (mailboxes s)
          \<and> halted s' = False
          \<and> pc s' = pc s \<and> acc s' = acc s \<and> awaiting_input s' = awaiting_input s"
proof -
  define k where "k = min 100 (length code)"
  define mb where "mb = fold (\<lambda>i m. m[i := code ! i]) [0 ..< k] (mailboxes s)"
  have res: "load_program s code = Inr (s\<lparr>mailboxes := mb, halted := False\<rparr>)"
    using assms by (simp add: load_program_result mb_def k_def)
  have len: "length mb = 100"
    using assms by (simp add: mb_def length_fold_update)
  have nth: "mb ! j = (if j < k then code ! j else mailboxes s ! j)" if "j < 100" for j
    using that assms by (simp add: mb_def nth_fold_update)
  have low: "\<forall>i. i < min 100 (length code) \<longrightarrow> mb ! i = code ! i"
    using nth by (simp add: k_def)
  have high: "\<forall>i. length code \<le> i \<and> i < 100 \<longrightarrow> mb ! i = mailboxes s ! i"
    using nth by (simp add: k_def)
  have eq: "mb = take 100 code @ drop (length code) (mailboxes s)"
  proof (rule nth_equalityI)
    show "length mb = length (take 100 code @ drop (length code) (mailboxes s))"
      using len assms by (simp add: min_def)
  next
    fix i
    assume "i < length mb"
    then have i: "i < 100"
      using len by simp
    show "mb ! i = (take 100 code @ drop (length code) (mailboxes s)) ! i"
    proof (cases "i < k")
      case True
      then show ?thesis
        using nth [OF i] by (simp add: nth_append k_def)
    next
      case False
      with i have "length code \<le> i"
        by (simp add: k_def)
      then show ?thesis
        using nth [OF i] False i assms by (simp add: nth_append k_def min_def)
    qed
  qed
  from res len low high eq show ?thesis
    by simp
qed

theorem load_program_frame_witness:
  "length (mailboxes (initial\<lparr>pc := 5, mailboxes := replicate 100 7, halted := True\<rparr>)) = 100
   \<and> (\<exists>s'. load_program (initial\<lparr>pc := 5, mailboxes := replicate 100 7, halted := True\<rparr>)
              [901, 902, 0] = Inr s'
          \<and> mailboxes s' = [901, 902, 0] @ replicate 97 7
          \<and> halted s' = False \<and> pc s' = 5)"
  using load_program_frame
    [of "initial\<lparr>pc := 5, mailboxes := replicate 100 7, halted := True\<rparr>" "[901, 902, 0]"]
  by (auto simp: initial_def)

text \<open>
  C6.  \<open>load_input\<close> fails exactly when the value is greater than 999, and the failure
  is that of the assertion.  Every value up to 999, negative ones included, is accepted:
  it becomes \<open>acc\<close>, \<open>awaiting_input\<close> becomes false, and \<open>pc\<close>, the mailboxes and
  \<open>halted\<close> stay as they were.
\<close>

theorem load_input_contract:
  "((\<exists>e. load_input s v = Inl e) \<longleftrightarrow> v > 999)
   \<and> (v > 999 \<longrightarrow> load_input s v = Inl AssertionError)
   \<and> (v \<le> 999 \<longrightarrow>
        (\<exists>s'. load_input s v = Inr s' \<and> acc s' = v \<and> awaiting_input s' = False
           \<and> pc s' = pc s \<and> mailboxes s' = mailboxes s \<and> halted s' = halted s))"
  by (simp add: load_input_def)

theorem load_input_contract_witness:
  "(- 5 :: int) \<le> 999
   \<and> (\<exists>s'. load_input (initial\<lparr>awaiting_input := True\<rparr>) (- 5) = Inr s' \<and> acc s' = - 5
          \<and> awaiting_input s' = False \<and> pc s' = 0 \<and> halted s' = False)
   \<and> (1000 :: int) > 999
   \<and> load_input (initial\<lparr>awaiting_input := True\<rparr>) 1000 = Inl AssertionError"
  using load_input_contract [of "initial\<lparr>awaiting_input := True\<rparr>" "- 5"]
    load_input_contract [of "initial\<lparr>awaiting_input := True\<rparr>" 1000]
  by (auto simp: initial_def)

text \<open>
  C7.  When the machine is not halted and the fetched instruction decodes to an opcode
  that no branch of the dispatch handles (opcode 4, or a 9xx opcode other than 901 and
  902), \<open>step\<close> returns no output and changes nothing but \<open>pc\<close>, which grows by 1.
\<close>

theorem step_unmapped_opcode:
  assumes "\<not> halted s"
    and "fetch s = Inr instruction"
    and "decode instruction = (opcode, operand)"
    and "opcode = 4 \<or> (900 \<le> opcode \<and> opcode \<le> 999 \<and> opcode \<noteq> 901 \<and> opcode \<noteq> 902)"
  shows "step s = Inr (None, s\<lparr>pc := pc s + 1\<rparr>)"
proof -
  have "execute s opcode operand = Inr (None, s\<lparr>pc := pc s + 1\<rparr>)"
    using assms(4) by (auto simp: execute_def)
  then show ?thesis
    using assms(1-3) by (simp add: step_def)
qed

theorem step_unmapped_opcode_witness:
  "\<not> halted (initial\<lparr>mailboxes := 450 # 999 # replicate 98 0\<rparr>)
   \<and> fetch (initial\<lparr>mailboxes := 450 # 999 # replicate 98 0\<rparr>) = Inr 450
   \<and> decode 450 = (4, 50)
   \<and> step (initial\<lparr>mailboxes := 450 # 999 # replicate 98 0\<rparr>)
       = Inr (None, initial\<lparr>pc := 1, mailboxes := 450 # 999 # replicate 98 0\<rparr>)
   \<and> fetch (initial\<lparr>pc := 1, mailboxes := 450 # 999 # replicate 98 0\<rparr>) = Inr 999
   \<and> decode 999 = (999, 0)
   \<and> step (initial\<lparr>pc := 1, mailboxes := 450 # 999 # replicate 98 0\<rparr>)
       = Inr (None, initial\<lparr>pc := 2, mailboxes := 450 # 999 # replicate 98 0\<rparr>)"
proof -
  let ?m = "450 # 999 # replicate 98 (0::int)"
  have f0: "fetch (initial\<lparr>mailboxes := ?m\<rparr>) = Inr 450"
    by (simp add: fetch_def list_get_def initial_def)
  have f1: "fetch (initial\<lparr>pc := 1, mailboxes := ?m\<rparr>) = Inr 999"
    by (simp add: fetch_def list_get_def initial_def)
  have d0: "decode 450 = (4, 50)"
    by (simp add: decode_def)
  have d1: "decode 999 = (999, 0)"
    by (simp add: decode_def)
  have h0: "\<not> halted (initial\<lparr>mailboxes := ?m\<rparr>)"
    by (simp add: initial_def)
  have h1: "\<not> halted (initial\<lparr>pc := 1, mailboxes := ?m\<rparr>)"
    by (simp add: initial_def)
  have s0: "step (initial\<lparr>mailboxes := ?m\<rparr>) = Inr (None, initial\<lparr>pc := 1, mailboxes := ?m\<rparr>)"
    using step_unmapped_opcode [OF h0 f0 d0] by (simp add: initial_def)
  have s1: "step (initial\<lparr>pc := 1, mailboxes := ?m\<rparr>)
            = Inr (None, initial\<lparr>pc := 2, mailboxes := ?m\<rparr>)"
    using step_unmapped_opcode [OF h1 f1 d1] by (simp add: initial_def)
  from f0 f1 d0 d1 h0 s0 s1 show ?thesis
    by simp
qed

text \<open>
  C10.  In a state that is not halted, with \<open>pc\<close> in 0..99 and the 100 mailboxes,
  \<open>step\<close> raises no \<open>IndexError\<close>: the fetch reads mailbox \<open>pc\<close>; the operand that
  \<open>decode\<close> returns for any integer is in 0..99 (the instruction modulo 100, or 0
  when the opcode digit is 9); and with such an operand every branch of \<open>execute\<close>,
  the reads of ADD, SUB and LDA and the write of STA among them, returns normally and
  keeps the 100 mailboxes.
\<close>

theorem step_no_index_error:
  assumes "\<not> halted s" and "0 \<le> pc s" and "pc s \<le> 99" and "length (mailboxes s) = 100"
  shows "fetch s = Inr (mailboxes s ! nat (pc s))
       \<and> (\<forall>instruction. 0 \<le> snd (decode instruction) \<and> snd (decode instruction) \<le> 99
            \<and> snd (decode instruction)
                = (if instruction div 100 = 9 then 0 else instruction mod 100))
       \<and> (\<forall>opcode operand. 0 \<le> operand \<and> operand \<le> 99 \<longrightarrow>
            (\<exists>out s'. execute s opcode operand = Inr (out, s') \<and> length (mailboxes s') = 100))
       \<and> (\<exists>out s'. step s = Inr (out, s') \<and> length (mailboxes s') = 100)"
proof -
  have f: "fetch s = Inr (mailboxes s ! nat (pc s))"
    using assms(2-4) by (simp add: fetch_def list_get_def)
  have d: "snd (decode i) = (if i div 100 = 9 then 0 else i mod 100)" for i
    by (simp add: decode_def Let_def)
  have e: "\<exists>out s'. execute s opcode operand = Inr (out, s') \<and> length (mailboxes s') = 100"
    if "0 \<le> operand \<and> operand \<le> 99" for opcode operand
    using that assms(4) execute_in_range by blast
  obtain opc opd where dec: "decode (mailboxes s ! nat (pc s)) = (opc, opd)"
    by (cases "decode (mailboxes s ! nat (pc s))") blast
  have "0 \<le> opd \<and> opd \<le> 99"
    using decode_operand_range [of "mailboxes s ! nat (pc s)"] dec by simp
  from e [OF this, of opc]
  have st: "\<exists>out s'. step s = Inr (out, s') \<and> length (mailboxes s') = 100"
    using assms(1) f dec by (simp add: step_def)
  from f d e st decode_operand_range show ?thesis
    by blast
qed

theorem step_no_index_error_witness:
  "\<not> halted (initial\<lparr>pc := 99, acc := 5, mailboxes := replicate 100 399\<rparr>)
   \<and> (0::int) \<le> pc (initial\<lparr>pc := 99, acc := 5, mailboxes := replicate 100 399\<rparr>)
   \<and> pc (initial\<lparr>pc := 99, acc := 5, mailboxes := replicate 100 399\<rparr>) \<le> 99
   \<and> length (mailboxes (initial\<lparr>pc := 99, acc := 5, mailboxes := replicate 100 399\<rparr>)) = 100
   \<and> fetch (initial\<lparr>pc := 99, acc := 5, mailboxes := replicate 100 399\<rparr>) = Inr 399
   \<and> (\<exists>out s'. step (initial\<lparr>pc := 99, acc := 5, mailboxes := replicate 100 399\<rparr>)
                  = Inr (out, s'))"
  using step_no_index_error [of "initial\<lparr>pc := 99, acc := 5, mailboxes := replicate 100 399\<rparr>"]
  by (auto simp: initial_def)

section \<open>Properties of the assembler\<close>

text \<open>
  The instruction table has the value \<open>None\<close> for \<open>DAT\<close> alone, so for another
  mnemonic a \<open>TypeError\<close> of the code generator can only come from a missing operand.
\<close>

lemma instructions_None_only_DAT: "instructions m = Some None \<longleftrightarrow> m = ''DAT''"
  by (simp add: instructions_def)

lemma generate_line_TypeError:
  "generate_line (Some m, operand) = Inl TypeError \<Longrightarrow> m \<noteq> ''DAT'' \<Longrightarrow> operand = None"
  by (auto simp: generate_line_def instructions_None_only_DAT py_int_def Let_def
      split: option.splits sum.splits if_splits)









text \<open>
  C9, as the code has it.  A line of exactly two tokens is classified by two tests in
  turn.  If the first token, upper-cased, is a key of the instruction table, the line is
  (no label, the first token upper-cased, the second token as operand).  Otherwise, if
  the second token, upper-cased, is a key, the line is (the first token as label, the
  second token upper-cased, no operand).  If neither is a key, the line is the triple
  without label, mnemonic and operand.
\<close>

theorem tokenise_two_tokens:
  assumes "split_ws line = [t0, t1]"
  shows "tokenise_line line =
           Some (if is_mnemonic (upper t0) then (None, Some (upper t0), Some t1)
                 else if is_mnemonic (upper t1) then (Some t0, Some (upper t1), None)
                 else (None, None, None))"
  using assms by (simp add: tokenise_line_def)

theorem tokenise_two_tokens_witness:
  "split_ws ''lda 5'' = [''lda'', ''5'']
   \<and> tokenise_line ''lda 5'' = Some (None, Some ''LDA'', Some ''5'')
   \<and> split_ws ''one dat'' = [''one'', ''dat'']
   \<and> tokenise_line ''one dat'' = Some (Some ''one'', Some ''DAT'', None)
   \<and> split_ws ''foo bar'' = [''foo'', ''bar'']
   \<and> tokenise_line ''foo bar'' = Some (None, None, None)"
proof -
  have s1: "split_ws ''lda 5'' = [''lda'', ''5'']"
    by code_simp
  have s2: "split_ws ''one dat'' = [''one'', ''dat'']"
    by code_simp
  have s3: "split_ws ''foo bar'' = [''foo'', ''bar'']"
    by code_simp
  have u: "upper ''lda'' = ''LDA''" "upper ''dat'' = ''DAT''"
    by code_simp+
  have k: "is_mnemonic ''LDA''" "\<not> is_mnemonic (upper ''one'')" "is_mnemonic ''DAT''"
    "\<not> is_mnemonic (upper ''foo'')" "\<not> is_mnemonic (upper ''bar'')"
    by code_simp+
  from tokenise_two_tokens [OF s1] tokenise_two_tokens [OF s2] tokenise_two_tokens [OF s3]
    s1 s2 s3 u k
  show ?thesis
    by simp
qed

theorem tokenise_two_tokens_counterexample:
  "split_ws ''foo bar'' = [''foo'', ''bar'']
   \<and> \<not> is_mnemonic (upper ''foo'')
   \<and> tokenise_line ''foo bar'' = Some (None, None, None)
   \<and> tokenise_line ''foo bar'' \<noteq> Some (Some ''foo'', Some ''bar'', None)
   \<and> tokenise_line ''foo bar'' \<noteq> Some (Some ''foo'', Some ''BAR'', None)"
  by code_simp

lemma build_labels_lookup:
  "build_labels n lines m l = Some k \<Longrightarrow> l \<noteq> [] \<Longrightarrow>
   (m l = Some k \<and> (\<forall>p < length lines. fst (lines ! p) \<noteq> Some l))
   \<or> (\<exists>p < length lines. k = n + p \<and> fst (lines ! p) = Some l
        \<and> (\<forall>q. p < q \<and> q < length lines \<longrightarrow> fst (lines ! q) \<noteq> Some l))"
proof (induction lines arbitrary: n m)
  case Nil
  then show ?case by simp
next
  case (Cons line rest)
  obtain lab mn opd where line: "line = (lab, mn, opd)"
    by (cases line) auto
  define m' where "m' = (case lab of None \<Rightarrow> m | Some x \<Rightarrow> if x = [] then m else m(x \<mapsto> n))"
  have b: "build_labels (Suc n) rest m' l = Some k"
    using Cons.prems(1) by (simp add: line m'_def)
  from Cons.IH [OF b Cons.prems(2)]
  consider
    (old) "m' l = Some k" "\<forall>p < length rest. fst (rest ! p) \<noteq> Some l"
  | (new) p where "p < length rest" "k = Suc n + p" "fst (rest ! p) = Some l"
      "\<forall>q. p < q \<and> q < length rest \<longrightarrow> fst (rest ! q) \<noteq> Some l"
    by blast
  then show ?case
  proof cases
    case old
    show ?thesis
    proof (cases "lab = Some l")
      case True
      with old(1) Cons.prems(2) have "k = n"
        by (simp add: m'_def)
      moreover have "\<forall>q. 0 < q \<and> q < length (line # rest) \<longrightarrow> fst ((line # rest) ! q) \<noteq> Some l"
        using old(2) by (auto simp: nth_Cons split: nat.splits)
      ultimately have "0 < length (line # rest) \<and> k = n + 0 \<and> fst ((line # rest) ! 0) = Some l
          \<and> (\<forall>q. 0 < q \<and> q < length (line # rest) \<longrightarrow> fst ((line # rest) ! q) \<noteq> Some l)"
        using True line by simp
      then show ?thesis
        by blast
    next
      case False
      then have "m' l = m l"
        by (auto simp: m'_def split: option.splits)
      moreover have "\<forall>p < length (line # rest). fst ((line # rest) ! p) \<noteq> Some l"
        using old(2) False line by (auto simp: nth_Cons split: nat.splits)
      ultimately show ?thesis
        using old(1) by simp
    qed
  next
    case new
    have "Suc p < length (line # rest) \<and> k = n + Suc p \<and> fst ((line # rest) ! Suc p) = Some l
        \<and> (\<forall>q. Suc p < q \<and> q < length (line # rest) \<longrightarrow> fst ((line # rest) ! q) \<noteq> Some l)"
      using new by (auto simp: nth_Cons split: nat.splits)
    then show ?thesis
      by blast
  qed
qed

lemma unlabel_rewrite_length:
  "unlabel_rewrite labels lines = Inr us \<Longrightarrow> length us = length lines"
  by (induction labels lines arbitrary: us rule: unlabel_rewrite.induct)
     (auto split: sum.splits)

lemma unlabel_rewrite_nth:
  "unlabel_rewrite labels lines = Inr us \<Longrightarrow> i < length lines \<Longrightarrow> lines ! i = (lab, mn, opd) \<Longrightarrow>
   \<exists>opd'. unlabel_operand labels mn opd = Inr opd' \<and> us ! i = (mn, opd')"
proof (induction lines arbitrary: us i)
  case Nil
  then show ?case by simp
next
  case (Cons line rest)
  obtain lab0 mn0 opd0 where line: "line = (lab0, mn0, opd0)"
    by (cases line) auto
  from Cons.prems(1) line obtain o' us' where
    o': "unlabel_operand labels mn0 opd0 = Inr o'"
    and us': "unlabel_rewrite labels rest = Inr us'"
    and us: "us = (mn0, o') # us'"
    by (auto split: sum.splits)
  show ?case
  proof (cases i)
    case 0
    with Cons.prems(3) line o' us show ?thesis
      by simp
  next
    case (Suc i')
    with Cons.prems(2,3) have "i' < length rest" "rest ! i' = (lab, mn, opd)"
      by simp_all
    from Cons.IH [OF us' this] us Suc show ?thesis
      by simp
  qed
qed

lemma unlabel_lines_reference:
  assumes "unlabel_lines lines = Inr us"
    and "i < length lines" and "lines ! i = (lab, mn, Some l)"
    and "mn \<noteq> Some ''DAT''" and "l \<noteq> []" and "\<not> isnumeric l"
  shows "\<exists>k. build_labels 0 lines Map.empty l = Some k \<and> us ! i = (mn, Some (str_nat k))"
proof -
  from unlabel_rewrite_nth [OF assms(1) [unfolded unlabel_lines_def] assms(2,3)]
  obtain opd' where
    "unlabel_operand (build_labels 0 lines Map.empty) mn (Some l) = Inr opd'"
    and "us ! i = (mn, opd')"
    by blast
  then show ?thesis
    using assms(4-6) by (auto simp: unlabel_operand_def split: option.splits)
qed

lemma build_labels_keeps:
  "m l \<noteq> None \<Longrightarrow> build_labels n lines m l \<noteq> None"
proof (induction lines arbitrary: n m)
  case Nil
  then show ?case by simp
next
  case (Cons line rest)
  obtain lab mn opd where line: "line = (lab, mn, opd)"
    by (cases line) auto
  define m' where "m' = (case lab of None \<Rightarrow> m | Some x \<Rightarrow> if x = [] then m else m(x \<mapsto> n))"
  have "m' l \<noteq> None"
    using Cons.prems by (auto simp: m'_def split: option.splits)
  then have "build_labels (Suc n) rest m' l \<noteq> None"
    by (rule Cons.IH)
  then show ?case
    by (simp add: line m'_def)
qed

lemma build_labels_defined:
  "d < length lines \<Longrightarrow> fst (lines ! d) = Some l \<Longrightarrow> l \<noteq> [] \<Longrightarrow>
   \<exists>k. build_labels n lines m l = Some k"
proof (induction lines arbitrary: n m d)
  case Nil
  then show ?case by simp
next
  case (Cons line rest)
  obtain lab mn opd where line: "line = (lab, mn, opd)"
    by (cases line) auto
  show ?case
  proof (cases d)
    case 0
    with Cons.prems(2) line have "lab = Some l"
      by simp
    define m' where "m' = m(l \<mapsto> n)"
    have "m' l \<noteq> None"
      by (simp add: m'_def)
    then have "build_labels (Suc n) rest m' l \<noteq> None"
      by (rule build_labels_keeps)
    with \<open>lab = Some l\<close> Cons.prems(3) line show ?thesis
      by (auto simp: m'_def)
  next
    case (Suc d')
    with Cons.prems(1,2) have "d' < length rest" "fst (rest ! d') = Some l"
      by simp_all
    from Cons.IH [OF this Cons.prems(3)] show ?thesis
      by (simp add: line)
  qed
qed

lemma unlabel_rewrite_succeeds:
  "\<forall>t \<in> set lines. \<exists>opd'. unlabel_operand labels (fst (snd t)) (snd (snd t)) = Inr opd' \<Longrightarrow>
   \<exists>us. unlabel_rewrite labels lines = Inr us"
proof (induction lines)
  case Nil
  show ?case by simp
next
  case (Cons line rest)
  obtain lab mn opd where line: "line = (lab, mn, opd)"
    by (cases line) auto
  from Cons.prems line obtain opd' where "unlabel_operand labels mn opd = Inr opd'"
    by auto
  moreover from Cons obtain us where "unlabel_rewrite labels rest = Inr us"
    by auto
  ultimately show ?case
    by (simp add: line)
qed

lemma unlabel_lines_succeeds:
  assumes "labels_defined lines"
  shows "\<exists>us. unlabel_lines lines = Inr us"
proof -
  let ?labels = "build_labels 0 lines Map.empty"
  have "\<exists>opd'. unlabel_operand ?labels (fst (snd t)) (snd (snd t)) = Inr opd'"
    if t: "t \<in> set lines" for t
  proof (cases "label_reference t")
    case None
    then show ?thesis
      by (cases t) (auto simp: label_reference_def unlabel_operand_def split: option.splits if_splits)
  next
    case (Some x)
    then have x: "x \<noteq> []" and opd: "snd (snd t) = Some x"
      by (cases t; auto simp: label_reference_def split: option.splits if_splits)+
    from assms t Some have "list_ex (\<lambda>t'. fst t' = Some x) lines"
      by (auto simp: labels_defined_def list_all_iff)
    then obtain d where "d < length lines" "fst (lines ! d) = Some x"
      by (auto simp: list_ex_iff in_set_conv_nth)
    from build_labels_defined [OF this x] obtain k where "?labels x = Some k"
      by blast
    then show ?thesis
      using opd by (simp add: unlabel_operand_def)
  qed
  then show ?thesis
    unfolding unlabel_lines_def by (intro unlabel_rewrite_succeeds) blast
qed

text \<open>
  C2.  Let some line of a tokenised program carry the label \<open>l\<close>, and let two lines,
  at any positions \<open>i\<close> and \<open>j\<close>, before or after that line, have \<open>l\<close> as operand (a
  string that is not numeric, on an instruction other than \<open>DAT\<close>).  The table that
  \<open>_unlabel_lines\<close> builds from all lines has an entry for \<open>l\<close>: the 0-based position
  \<open>k\<close> of the line that defines \<open>l\<close> (the last such line, if several do).  Both
  references are rewritten to the decimal form of this one \<open>k\<close>, whatever their
  position.  \<open>_unlabel_lines\<close> returns for every program in which each label used as
  operand is defined somewhere, and whenever it returns, its result has the two
  rewritten operands at positions \<open>i\<close> and \<open>j\<close>.
\<close>

theorem label_reference_position_independent:
  assumes "d < length lines" and "fst (lines ! d) = Some l"
    and "i < length lines" and "lines ! i = (lab_i, mn_i, Some l)" and "mn_i \<noteq> Some ''DAT''"
    and "j < length lines" and "lines ! j = (lab_j, mn_j, Some l)" and "mn_j \<noteq> Some ''DAT''"
    and "l \<noteq> []" and "\<not> isnumeric l"
  shows "\<exists>k < length lines.
           fst (lines ! k) = Some l
         \<and> (\<forall>q. k < q \<and> q < length lines \<longrightarrow> fst (lines ! q) \<noteq> Some l)
         \<and> build_labels 0 lines Map.empty l = Some k
         \<and> unlabel_operand (build_labels 0 lines Map.empty) mn_i (Some l) = Inr (Some (str_nat k))
         \<and> unlabel_operand (build_labels 0 lines Map.empty) mn_j (Some l) = Inr (Some (str_nat k))
         \<and> (labels_defined lines \<longrightarrow> (\<exists>us. unlabel_lines lines = Inr us))
         \<and> (\<forall>us. unlabel_lines lines = Inr us \<longrightarrow>
               us ! i = (mn_i, Some (str_nat k)) \<and> us ! j = (mn_j, Some (str_nat k)))"
proof -
  from build_labels_defined [OF assms(1,2,9)]
  obtain k where k: "build_labels 0 lines Map.empty l = Some k"
    by blast
  from build_labels_lookup [OF k assms(9)]
  have pos: "k < length lines" "fst (lines ! k) = Some l"
    "\<forall>q. k < q \<and> q < length lines \<longrightarrow> fst (lines ! q) \<noteq> Some l"
    by auto
  have oi: "unlabel_operand (build_labels 0 lines Map.empty) mn_i (Some l) = Inr (Some (str_nat k))"
    using k assms(5,9,10) by (simp add: unlabel_operand_def)
  have oj: "unlabel_operand (build_labels 0 lines Map.empty) mn_j (Some l) = Inr (Some (str_nat k))"
    using k assms(8,9,10) by (simp add: unlabel_operand_def)
  have ret: "labels_defined lines \<longrightarrow> (\<exists>us. unlabel_lines lines = Inr us)"
    using unlabel_lines_succeeds by blast
  have res: "us ! i = (mn_i, Some (str_nat k)) \<and> us ! j = (mn_j, Some (str_nat k))"
    if us: "unlabel_lines lines = Inr us" for us
    using unlabel_lines_reference [OF us assms(3,4,5,9,10)]
      unlabel_lines_reference [OF us assms(6,7,8,9,10)] k
    by auto
  from k pos oi oj ret res show ?thesis
    by blast
qed

theorem label_reference_position_independent_witness:
  "tokenise [''BRA x'', ''x HLT'', ''BRA x'']
     = [(None, Some ''BRA'', Some ''x''), (Some ''x'', Some ''HLT'', None),
        (None, Some ''BRA'', Some ''x'')]
   \<and> labels_defined [(None, Some ''BRA'', Some ''x''), (Some ''x'', Some ''HLT'', None),
                      (None, Some ''BRA'', Some ''x'')]
   \<and> unlabel_lines [(None, Some ''BRA'', Some ''x''), (Some ''x'', Some ''HLT'', None),
                     (None, Some ''BRA'', Some ''x'')]
     = Inr [(Some ''BRA'', Some ''1''), (Some ''HLT'', None), (Some ''BRA'', Some ''1'')]
   \<and> (\<exists>k < length [(None, Some ''BRA'', Some ''x''), (Some ''x'', Some ''HLT'', None),
                     (None, Some ''BRA'', Some ''x'')].
         build_labels 0 [(None, Some ''BRA'', Some ''x''), (Some ''x'', Some ''HLT'', None),
                         (None, Some ''BRA'', Some ''x'')] Map.empty ''x'' = Some k
       \<and> [(Some ''BRA'', Some ''1''), (Some ''HLT'', None), (Some ''BRA'', Some ''1'')] ! 0
           = (Some ''BRA'', Some (str_nat k))
       \<and> [(Some ''BRA'', Some ''1''), (Some ''HLT'', None), (Some ''BRA'', Some ''1'')] ! 2
           = (Some ''BRA'', Some (str_nat k)))
   \<and> assemble default_assembler ''BRA x\<newline>x HLT\<newline>BRA x'' = Inr [601, 0, 601]"
proof -
  let ?lines = "[(None, Some ''BRA'', Some ''x''), (Some ''x'', Some ''HLT'', None),
                 (None, Some ''BRA'', Some ''x'')]"
  let ?us = "[(Some ''BRA'', Some ''1''), (Some ''HLT'', None), (Some ''BRA'', Some ''1'')]"
  have t: "tokenise [''BRA x'', ''x HLT'', ''BRA x''] = ?lines"
    by code_simp
  have ld: "labels_defined ?lines"
    by code_simp
  have u: "unlabel_lines ?lines = Inr ?us"
    by code_simp
  have a: "assemble default_assembler ''BRA x\<newline>x HLT\<newline>BRA x'' = Inr [601, 0, 601]"
    by code_simp
  have n: "\<not> isnumeric ''x''"
    by code_simp
  have "\<exists>k < length ?lines.
           fst (?lines ! k) = Some ''x''
         \<and> (\<forall>q. k < q \<and> q < length ?lines \<longrightarrow> fst (?lines ! q) \<noteq> Some ''x'')
         \<and> build_labels 0 ?lines Map.empty ''x'' = Some k
         \<and> unlabel_operand (build_labels 0 ?lines Map.empty) (Some ''BRA'') (Some ''x'')
             = Inr (Some (str_nat k))
         \<and> unlabel_operand (build_labels 0 ?lines Map.empty) (Some ''BRA'') (Some ''x'')
             = Inr (Some (str_nat k))
         \<and> (labels_defined ?lines \<longrightarrow> (\<exists>us. unlabel_lines ?lines = Inr us))
         \<and> (\<forall>us. unlabel_lines ?lines = Inr us \<longrightarrow>
               us ! 0 = (Some ''BRA'', Some (str_nat k))
             \<and> us ! 2 = (Some ''BRA'', Some (str_nat k)))"
    using n by (intro label_reference_position_independent [where d = 1]) simp_all
  with u have "\<exists>k < length ?lines. build_labels 0 ?lines Map.empty ''x'' = Some k
         \<and> ?us ! 0 = (Some ''BRA'', Some (str_nat k))
         \<and> ?us ! 2 = (Some ''BRA'', Some (str_nat k))"
    by blast
  with t ld u a show ?thesis
    by blast
qed

lemma split_scan_Nil:
  "split_scan cur s = [] \<longleftrightarrow> cur = [] \<and> (\<forall>c \<in> set s. isspace c)"
  by (induction s arbitrary: cur) auto

lemma split_ws_Nil: "split_ws s = [] \<longleftrightarrow> (\<forall>c \<in> set s. isspace c)"
  by (simp add: split_ws_def split_scan_Nil)

lemma in_set_dropWhile: "x \<in> set xs \<Longrightarrow> \<not> P x \<Longrightarrow> x \<in> set (dropWhile P xs)"
  by (induction xs) auto

lemma strip_keeps: "c \<in> set s \<Longrightarrow> \<not> isspace c \<Longrightarrow> c \<in> set (strip s)"
  by (simp add: strip_def in_set_dropWhile)

lemma strip_is_prefix: "\<exists>sfx. dropWhile isspace s = strip s @ sfx"
proof -
  let ?ys = "dropWhile isspace s"
  have "rev (takeWhile isspace (rev ?ys) @ dropWhile isspace (rev ?ys)) = ?ys"
    by (simp only: takeWhile_dropWhile_id rev_rev_ident)
  then have "rev (dropWhile isspace (rev ?ys)) @ rev (takeWhile isspace (rev ?ys)) = ?ys"
    by (simp only: rev_append)
  then have "?ys = strip s @ rev (takeWhile isspace (rev ?ys))"
    by (simp only: strip_def)
  then show ?thesis
    by blast
qed

lemma strip_first: "strip s = c # cs \<Longrightarrow> \<not> isspace c"
proof -
  assume s: "strip s = c # cs"
  from strip_is_prefix [of s] s obtain sfx where d: "dropWhile isspace s = c # cs @ sfx"
    by auto
  then have "dropWhile isspace s \<noteq> []" "hd (dropWhile isspace s) = c"
    by simp_all
  with hd_dropWhile [of isspace s] show ?thesis
    by auto
qed

lemma normalised_line_has_token:
  assumes "strip x \<noteq> []" and "\<not> startswith (strip x) delim"
  shows "split_ws (strip (before_first (strip x) delim)) \<noteq> []"
proof -
  from assms(1) obtain c cs where x: "strip x = c # cs"
    by (cases "strip x") auto
  then have c: "\<not> isspace c"
    by (rule strip_first)
  from assms(2) x have "c \<in> set (before_first (strip x) delim)"
    by simp
  with c have "c \<in> set (strip (before_first (strip x) delim))"
    by (simp add: strip_keeps)
  with c show ?thesis
    by (auto simp: split_ws_Nil)
qed

lemma startswith_empty_separator: "\<not> startswith s delim \<Longrightarrow> delim \<noteq> []"
  by (cases delim) auto

lemma normalise_lines_never_fails: "\<exists>ls. normalise_lines delim src = Inr ls"
proof (induction src)
  case Nil
  show ?case by simp
next
  case (Cons l rest)
  then obtain ls where "normalise_lines delim rest = Inr ls"
    by blast
  then show ?case
    using startswith_empty_separator [of "strip (replace_tabs l)" delim]
    by (auto simp: Let_def split_head_def)
qed

lemma normalise_lines_length:
  "normalise_lines delim src = Inr ls \<Longrightarrow>
   length ls = length (filter (\<lambda>l. strip (replace_tabs l) \<noteq> []
                                    \<and> \<not> startswith (strip (replace_tabs l)) delim) src)
   \<and> (\<forall>l \<in> set ls. split_ws l \<noteq> [])"
proof (induction src arbitrary: ls)
  case Nil
  then show ?case by simp
next
  case (Cons l rest)
  let ?line = "strip (replace_tabs l)"
  show ?case
  proof (cases "?line = [] \<or> startswith ?line delim")
    case True
    with Cons.prems have "normalise_lines delim rest = Inr ls"
      by (auto simp: Let_def)
    from Cons.IH [OF this] True show ?thesis
      by auto
  next
    case False
    then have d: "delim \<noteq> []"
      using startswith_empty_separator by blast
    from Cons.prems False d obtain ls' where
      rest: "normalise_lines delim rest = Inr ls'"
      and ls: "ls = strip (before_first ?line delim) # ls'"
      by (auto simp: Let_def split_head_def split: sum.splits)
    have "split_ws (strip (before_first ?line delim)) \<noteq> []"
      using False by (intro normalised_line_has_token) simp_all
    with Cons.IH [OF rest] ls False show ?thesis
      by auto
  qed
qed

lemma tokenise_line_None: "tokenise_line line = None \<longleftrightarrow> split_ws line = []"
  by (auto simp: tokenise_line_def Let_def)

lemma tokenise_length:
  "\<forall>l \<in> set ls. split_ws l \<noteq> [] \<Longrightarrow> length (tokenise ls) = length ls"
proof (induction ls)
  case Nil
  show ?case by simp
next
  case (Cons l rest)
  then have "tokenise_line l \<noteq> None"
    by (simp add: tokenise_line_None)
  with Cons show ?case
    by (auto split: option.splits)
qed

lemma generate_machine_code_length:
  "generate_machine_code us = Inr code \<Longrightarrow> length code = length us"
  by (induction us arbitrary: code) (auto split: sum.splits)

lemma assemble_length_any_program:
  assumes "assemble a program = Inr code"
  shows "length code = count_code_lines a program"
proof -
  from assms obtain ls us where
    n: "normalise a program = Inr ls"
    and u: "unlabel_lines (tokenise ls) = Inr us"
    and g: "generate_machine_code us = Inr code"
    by (auto simp: assemble_def split: sum.splits)
  from n have "length ls = count_code_lines a program" and tok: "\<forall>l \<in> set ls. split_ws l \<noteq> []"
    using normalise_lines_length [of "comment_delimeter a" "split_lines program" ls]
    by (simp_all add: normalise_def count_code_lines_def is_code_line_def [abs_def])
  moreover have "length (tokenise ls) = length ls"
    using tok by (rule tokenise_length)
  moreover have "length us = length (tokenise ls)"
    using u unfolding unlabel_lines_def by (rule unlabel_rewrite_length)
  moreover have "length code = length us"
    using g by (rule generate_machine_code_length)
  ultimately show ?thesis
    by simp
qed

text \<open>
  C3.  For a program whose operands are all numeric literals, the machine code that
  \<open>assemble\<close> returns has as many entries as the source text has lines that are
  neither empty nor comments.  (The lemma before shows the same of every program that
  assembles; a program with an unknown mnemonic or a malformed operand does not.)
\<close>

theorem assemble_length_numeric_operands:
  assumes "numeric_operands a program"
    and "assemble a program = Inr code"
  shows "length code = count_code_lines a program"
  using assms(2) by (rule assemble_length_any_program)

theorem assemble_length_numeric_operands_witness:
  "numeric_operands default_assembler ''LDA 5\<newline>  # a comment\<newline>\<newline>add 6 # sum\<newline>OUT\<newline>HLT''
   \<and> assemble default_assembler ''LDA 5\<newline>  # a comment\<newline>\<newline>add 6 # sum\<newline>OUT\<newline>HLT''
       = Inr [505, 106, 902, 0]
   \<and> count_code_lines default_assembler
       ''LDA 5\<newline>  # a comment\<newline>\<newline>add 6 # sum\<newline>OUT\<newline>HLT'' = 4"
proof -
  let ?p = "''LDA 5\<newline>  # a comment\<newline>\<newline>add 6 # sum\<newline>OUT\<newline>HLT''"
  have n: "numeric_operands default_assembler ?p"
    by code_simp
  have a: "assemble default_assembler ?p = Inr [505, 106, 902, 0]"
    by code_simp
  from assemble_length_numeric_operands [OF n a] n a show ?thesis
    by simp
qed

end
